theory Spec2Isabelle
  imports Main "HOL-Library.Word"
begin

section \<open>Data model\<close>

text \<open>
  \<^verbatim>\<open>Point\<close> of \<^verbatim>\<open>utils/canvas\<close> is an object with integer fields \<^verbatim>\<open>x\<close> and
  \<^verbatim>\<open>y\<close>; it is a pair here, \<open>fst\<close> being \<^verbatim>\<open>x\<close> and \<open>snd\<close> being \<^verbatim>\<open>y\<close>.
  \<^verbatim>\<open>Color\<close> is \<^verbatim>\<open>string\<close> in \<^verbatim>\<open>tools.ts\<close>. A pixel of a canvas is the four bytes
  that \<^verbatim>\<open>getImageData\<close> yields for it.
\<close>

type_synonym Point = "int \<times> int"

type_synonym Color = string

type_synonym rgba = "8 word \<times> 8 word \<times> 8 word \<times> 8 word"

definition transparent :: rgba where
  "transparent = (0, 0, 0, 0)"


text \<open>
  A canvas together with the state of its 2d context that the tools use: the size, the
  current fill style (as the colour it paints) and the pixel grid. Pixels outside the size
  are never read or written by the operations below.
\<close>

record Canvas =
  width :: int
  height :: int
  fillStyle :: rgba
  pixels :: "Point \<Rightarrow> rgba"

text \<open>The part of \<^verbatim>\<open>useToolboxState.getState()\<close> that the tools read and write.\<close>

record ToolboxState =
  fgColor :: Color
  bgColor :: Color
  brushSize :: int

text \<open>
  Reading a field of \<^verbatim>\<open>undefined\<close> (an element of an empty point list) throws a
  \<^verbatim>\<open>TypeError\<close>.
\<close>

datatype error = TypeError

section \<open>The raster surface\<close>

definition inCanvas :: "Point \<Rightarrow> Canvas \<Rightarrow> bool" where
  "inCanvas point ctx \<longleftrightarrow>
     fst point \<ge> 0 \<and> fst point < width ctx \<and> snd point \<ge> 0 \<and> snd point < height ctx"

text \<open>
  The host's \<^verbatim>\<open>getImageData(x, y, 1, 1).data\<close>: the four bytes of the pixel, transparent
  black outside the canvas.
\<close>

definition getImageData :: "Point \<Rightarrow> Canvas \<Rightarrow> rgba" where
  "getImageData point ctx = (if inCanvas point ctx then pixels ctx point else transparent)"

text \<open>
  The host's \<^verbatim>\<open>fillRect(x, y, w, h)\<close> on whole coordinates: the rectangle spans from
  \<open>x\<close> to \<open>x + w\<close> and from \<open>y\<close> to \<open>y + h\<close>, in the negative direction when \<open>w\<close> or
  \<open>h\<close> is negative, and is clipped to the canvas. The surface stores the fill colour in
  every pixel of it, as the raster surface of the specification does. The host composites
  the fill colour over the pixel (source-over): the stored colour is the fill colour when
  the fill colour is opaque or the pixel is cleared, and a blend of the two, computed in
  floating point, otherwise. The blend is not modelled: the colour this definition gives
  for a fill on a painted pixel is the host's for an opaque fill colour.
\<close>

definition inRect :: "int \<Rightarrow> int \<Rightarrow> int \<Rightarrow> int \<Rightarrow> Point \<Rightarrow> bool" where
  "inRect x0 y0 w h q \<longleftrightarrow>
     min x0 (x0 + w) \<le> fst q \<and> fst q < max x0 (x0 + w) \<and>
     min y0 (y0 + h) \<le> snd q \<and> snd q < max y0 (y0 + h)"

definition fillRect :: "int \<Rightarrow> int \<Rightarrow> int \<Rightarrow> int \<Rightarrow> Canvas \<Rightarrow> Canvas" where
  "fillRect x0 y0 w h ctx =
     ctx\<lparr>pixels := (\<lambda>q. if inRect x0 y0 w h q \<and> inCanvas q ctx then fillStyle ctx
                        else pixels ctx q)\<rparr>"

definition clearRect :: "int \<Rightarrow> int \<Rightarrow> int \<Rightarrow> int \<Rightarrow> Canvas \<Rightarrow> Canvas" where
  "clearRect x0 y0 w h ctx =
     ctx\<lparr>pixels := (\<lambda>q. if inRect x0 y0 w h q \<and> inCanvas q ctx then transparent
                        else pixels ctx q)\<rparr>"

text \<open>
  Assigning a colour string to \<^verbatim>\<open>ctx.fillStyle\<close>. The host's parser of colour strings
  is the parameter \<open>css\<close>; a string it rejects leaves the fill style as it was.
\<close>

definition setFillStyle :: "(Color \<Rightarrow> rgba option) \<Rightarrow> Color \<Rightarrow> Canvas \<Rightarrow> Canvas" where
  "setFillStyle css c ctx = (case css c of None \<Rightarrow> ctx | Some v \<Rightarrow> ctx\<lparr>fillStyle := v\<rparr>)"

text \<open>
  Modelled from the spec: \<^verbatim>\<open>paintPixel\<close>, \<^verbatim>\<open>erasePixel\<close> (\<^verbatim>\<open>utils/canvas\<close>) and
  \<^verbatim>\<open>getPixelColor\<close> (\<^verbatim>\<open>utils/colors\<close>) are not among the source files. The raster
  surface of the specification offers "paint/erase/read a single pixel": painting stores
  the current fill colour in the pixel, erasing makes it transparent, reading returns its
  colour, and colours are compared for equality.
\<close>

definition paintPixel :: "Point \<Rightarrow> Canvas \<Rightarrow> Canvas" where
  "paintPixel point ctx = fillRect (fst point) (snd point) 1 1 ctx"

definition erasePixel :: "Point \<Rightarrow> Canvas \<Rightarrow> Canvas" where
  "erasePixel point ctx = clearRect (fst point) (snd point) 1 1 ctx"

definition getPixelColor :: "Point \<Rightarrow> Canvas \<Rightarrow> rgba" where
  "getPixelColor point ctx = getImageData point ctx"

definition isEqual :: "rgba \<Rightarrow> rgba \<Rightarrow> bool" where
  "isEqual c d \<longleftrightarrow> c = d"

section \<open>Line\<close>

text \<open>
  \<^verbatim>\<open>drawLine\<close> (\<^verbatim>\<open>utils/canvas\<close>) is not among the source files; the tool is
  parameterised by it. \<^verbatim>\<open>points[i]\<close> is \<^verbatim>\<open>undefined\<close> only for the empty list, where
  \<^verbatim>\<open>drawLine\<close> is handed two undefined points and is taken to throw on reading them.
\<close>

definition Line ::
  "(Point \<Rightarrow> Point \<Rightarrow> Color \<Rightarrow> int \<Rightarrow> 'c \<Rightarrow> 'c) \<Rightarrow> ToolboxState \<Rightarrow> Point list \<Rightarrow> 'c \<Rightarrow> error + 'c"
where
  "Line drawLine st points canvas =
     (if points = [] then Inl TypeError
      else Inr (drawLine (points ! (if length points > 1 then 1 else 0))
                         (points ! nat (max 0 (int (length points) - 2)))
                         (fgColor st) (brushSize st) canvas))"

text \<open>A surface that only records the calls of \<^verbatim>\<open>drawLine\<close> made on it.\<close>

definition recordLine ::
  "Point \<Rightarrow> Point \<Rightarrow> Color \<Rightarrow> int \<Rightarrow> (Point \<times> Point \<times> Color \<times> int) list
     \<Rightarrow> (Point \<times> Point \<times> Color \<times> int) list" where
  "recordLine p q c b calls = calls @ [(p, q, c, b)]"

section \<open>Eyedropper\<close>

definition hexDigit :: "nat \<Rightarrow> char" where
  "hexDigit d = ''0123456789abcdef'' ! d"

text \<open>\<^verbatim>\<open>Number.prototype.toString(16)\<close> on a natural number.\<close>

fun toString16 :: "nat \<Rightarrow> string" where
  "toString16 n = (if n < 16 then [hexDigit n] else toString16 (n div 16) @ [hexDigit (n mod 16)])"

definition padStart :: "nat \<Rightarrow> char \<Rightarrow> string \<Rightarrow> string" where
  "padStart n c s = replicate (n - length s) c @ s"

definition setFgColor :: "Color \<Rightarrow> ToolboxState \<Rightarrow> ToolboxState" where
  "setFgColor c st = st\<lparr>fgColor := c\<rparr>"

text \<open>The tool leaves the canvas alone; its result is the toolbox state.\<close>

definition Eyedropper :: "ToolboxState \<Rightarrow> Point list \<Rightarrow> Canvas \<Rightarrow> error + ToolboxState" where
  "Eyedropper st points canvas =
     (if points = [] then Inl TypeError
      else
        let lastPoint = points ! (length points - 1);
            (r, g, b, a) = getImageData lastPoint canvas;
            color = concat (map (\<lambda>i. padStart 2 (CHR ''0'') (toString16 (unat i))) [r, g, b, a])
        in if color = ''00000000'' then Inr st
           else Inr (setFgColor (CHR ''#'' # color) st))"

text \<open>
  The encoding the specification names: \<open>#rrggbbaa\<close>, each channel as its high and its low
  hexadecimal digit.
\<close>

definition twoHexDigits :: "8 word \<Rightarrow> string" where
  "twoHexDigits i = [hexDigit (unat i div 16), hexDigit (unat i mod 16)]"

definition rrggbbaa :: "rgba \<Rightarrow> Color" where
  "rrggbbaa c = (case c of (r, g, b, a) \<Rightarrow>
     CHR ''#'' # twoHexDigits r @ twoHexDigits g @ twoHexDigits b @ twoHexDigits a)"

section \<open>Rectangle\<close>

definition getBoundingBoxIncludingBrush :: "Point list \<Rightarrow> int \<Rightarrow> Point \<times> Point" where
  "getBoundingBoxIncludingBrush points bsize =
     (let startPoint = points ! 0;
          endPoint = points ! (length points - 1);
          xValues = [fst startPoint, fst startPoint - bsize + 1,
                     fst endPoint, fst endPoint - bsize + 1];
          startX = Min (set xValues);
          endX = Max (set xValues);
          yValues = [snd startPoint, snd startPoint - bsize + 1,
                     snd endPoint, snd endPoint - bsize + 1];
          startY = Min (set yValues);
          endY = Max (set yValues)
      in ((startX, startY), (endX, endY)))"

text \<open>
  The corners \<^verbatim>\<open>start\<close> and \<^verbatim>\<open>end\<close> of the source are \<open>bstart\<close> and \<open>bend\<close>, the
  local \<^verbatim>\<open>width\<close> and \<^verbatim>\<open>height\<close> are \<open>w\<close> and \<open>h\<close>, and a parameter
  \<^verbatim>\<open>brushSize\<close> is \<open>bsize\<close> (the names are taken by record fields and keywords).
\<close>

definition Rectangle ::
  "(Color \<Rightarrow> rgba option) \<Rightarrow> ToolboxState \<Rightarrow> Point list \<Rightarrow> Canvas \<Rightarrow> error + Canvas" where
  "Rectangle css st points canvas =
     (if points = [] then Inl TypeError
      else
        let (bstart, bend) = getBoundingBoxIncludingBrush points (brushSize st);
            w = fst bend - fst bstart + 1;
            h = snd bend - snd bstart + 1;
            ctx = setFillStyle css (bgColor st) canvas;
            ctx = fillRect (fst bstart) (snd bstart) w h ctx;
            ctx = setFillStyle css (fgColor st) ctx;
            ctx = fillRect (fst bstart) (snd bstart) w (brushSize st) ctx;
            ctx = fillRect (fst bend + 1) (snd bend + 1) (- w) (- brushSize st) ctx;
            ctx = fillRect (fst bstart) (snd bstart) (brushSize st) h ctx;
            ctx = fillRect (fst bend + 1) (snd bend + 1) (- brushSize st) (- h) ctx
        in Inr ctx)"

text \<open>
  The words of the specification: the box between two corners, both included, and the
  frame of a given thickness along its four edges.
\<close>

definition inBox :: "Point \<times> Point \<Rightarrow> Point \<Rightarrow> bool" where
  "inBox box q \<longleftrightarrow>
     fst (fst box) \<le> fst q \<and> fst q \<le> fst (snd box) \<and>
     snd (fst box) \<le> snd q \<and> snd q \<le> snd (snd box)"

definition onFrame :: "Point \<times> Point \<Rightarrow> int \<Rightarrow> Point \<Rightarrow> bool" where
  "onFrame box t q \<longleftrightarrow>
     fst q < fst (fst box) + t \<or> fst (snd box) - t < fst q \<or>
     snd q < snd (fst box) + t \<or> snd (snd box) - t < snd q"

section \<open>Ellipse\<close>

definition getBoundingBox :: "Point list \<Rightarrow> int \<times> int \<times> int \<times> int" where
  "getBoundingBox points =
     (let startPoint = points ! 0;
          endPoint = points ! (length points - 1);
          xValues = [fst startPoint, fst startPoint, fst endPoint, fst endPoint];
          x0 = Min (set xValues);
          x1 = Max (set xValues);
          yValues = [snd startPoint, snd startPoint, snd endPoint, snd endPoint];
          y0 = Min (set yValues);
          y1 = Max (set yValues)
      in (x0, y0, x1, y1))"

text \<open>
  \<^verbatim>\<open>Math.round(v / 2)\<close> for a whole \<open>v\<close>: a half is rounded towards plus infinity.
  \<^verbatim>\<open>a % b\<close> takes the sign of \<open>a\<close>.
\<close>

definition roundHalf :: "int \<Rightarrow> int" where
  "roundHalf v = (v + 1) div 2"

definition jsRemainder :: "int \<Rightarrow> int \<Rightarrow> int" where
  "jsRemainder a b = sgn a * (\<bar>a\<bar> mod \<bar>b\<bar>)"

text \<open>
  The two radius tests of \<^verbatim>\<open>ellipse\<close> are floating-point computations
  (\<^verbatim>\<open>Math.atan\<close>, \<^verbatim>\<open>Math.sqrt\<close>, \<^verbatim>\<open>Math.cos\<close>, \<^verbatim>\<open>Math.sin\<close>); they are the
  parameters \<open>beyond\<close> and \<open>within\<close>: \<open>beyond a b x y\<close> stands for
  \<^verbatim>\<open>r > (a * b) / Math.sqrt(b * b * cos(angle)^2 + a * a * sin(angle)^2) + 0.5\<close> and
  \<open>within a b x y\<close> for the same with \<^verbatim>\<open><\<close>, where \<^verbatim>\<open>angle = Math.atan(y / x)\<close> and
  \<^verbatim>\<open>r = Math.sqrt(x * x + y * y)\<close>.

  \<open>ellipseQuadrant\<close> lists the \<open>(x, y)\<close> of the two nested loops that pass the test, in
  loop order; \<open>ellipseRects\<close> lists the origins of the 1 by 1 \<^verbatim>\<open>fillRect\<close> calls, four
  for each of them; \<open>ellipse\<close> makes the calls.
\<close>

definition ellipseQuadrant ::
  "(int \<Rightarrow> int \<Rightarrow> int \<Rightarrow> int \<Rightarrow> bool) \<Rightarrow> (int \<Rightarrow> int \<Rightarrow> int \<Rightarrow> int \<Rightarrow> bool) \<Rightarrow>
     Point list \<Rightarrow> int \<Rightarrow> bool \<Rightarrow> Point list" where
  "ellipseQuadrant beyond within points bsize fill =
     (let (x0, y0, x1, y1) = getBoundingBox points;
          xC = roundHalf (x0 + x1);
          yC = roundHalf (y0 + y1);
          rX = x1 - xC;
          rY = y1 - yC;
          iX = (if fill then 0 else max (rX - bsize) 0);
          iY = (if fill then 0 else max (rY - bsize) 0)
      in concat (map (\<lambda>x. concat (map (\<lambda>y.
           if (fill \<or> rX \<le> bsize \<or> rY \<le> bsize \<or> beyond iX iY x y) \<and> within rX rY x y
           then [(x, y)] else []) [0..rY])) [0..rX]))"

definition ellipseRects ::
  "(int \<Rightarrow> int \<Rightarrow> int \<Rightarrow> int \<Rightarrow> bool) \<Rightarrow> (int \<Rightarrow> int \<Rightarrow> int \<Rightarrow> int \<Rightarrow> bool) \<Rightarrow>
     Point list \<Rightarrow> int \<Rightarrow> bool \<Rightarrow> Point list" where
  "ellipseRects beyond within points bsize fill =
     (let (x0, y0, x1, y1) = getBoundingBox points;
          xC = roundHalf (x0 + x1);
          yC = roundHalf (y0 + y1);
          evenX = jsRemainder (x0 + x1) 2;
          evenY = jsRemainder (y0 + y1) 2
      in concat (map (\<lambda>(x, y).
           [(xC + x, yC + y), (xC - x - evenX, yC + y),
            (xC + x, yC - y - evenY), (xC - x - evenX, yC - y - evenY)])
           (ellipseQuadrant beyond within points bsize fill)))"

definition ellipse ::
  "(int \<Rightarrow> int \<Rightarrow> int \<Rightarrow> int \<Rightarrow> bool) \<Rightarrow> (int \<Rightarrow> int \<Rightarrow> int \<Rightarrow> int \<Rightarrow> bool) \<Rightarrow>
     Point list \<Rightarrow> int \<Rightarrow> Canvas \<Rightarrow> bool \<Rightarrow> Canvas" where
  "ellipse beyond within points bsize ctx fill =
     fold (\<lambda>q. fillRect (fst q) (snd q) 1 1)
       (ellipseRects beyond within points bsize fill) ctx"

text \<open>
  The tool also computes \<^verbatim>\<open>xRadius\<close>, \<^verbatim>\<open>yRadius\<close> and \<^verbatim>\<open>center\<close>, which it never
  uses.
\<close>

definition Ellipse ::
  "(Color \<Rightarrow> rgba option) \<Rightarrow> (int \<Rightarrow> int \<Rightarrow> int \<Rightarrow> int \<Rightarrow> bool) \<Rightarrow> (int \<Rightarrow> int \<Rightarrow> int \<Rightarrow> int \<Rightarrow> bool) \<Rightarrow>
     ToolboxState \<Rightarrow> Point list \<Rightarrow> Canvas \<Rightarrow> error + Canvas" where
  "Ellipse css beyond within st points canvas =
     (if points = [] then Inl TypeError
      else
        let fill = True;
            ctx = setFillStyle css (bgColor st) canvas;
            ctx = ellipse beyond within points (brushSize st) ctx fill;
            ctx = setFillStyle css (fgColor st) ctx;
            ctx = ellipse beyond within points (brushSize st) ctx (\<not> fill)
        in Inr ctx)"

text \<open>
  The centre and the parity corrections of \<^verbatim>\<open>ellipse\<close>, named for the statements about
  mirroring.
\<close>

definition ellipseCentre :: "Point list \<Rightarrow> Point" where
  "ellipseCentre points =
     (let (x0, y0, x1, y1) = getBoundingBox points
      in (roundHalf (x0 + x1), roundHalf (y0 + y1)))"

definition ellipseEven :: "Point list \<Rightarrow> Point" where
  "ellipseEven points =
     (let (x0, y0, x1, y1) = getBoundingBox points
      in (jsRemainder (x0 + x1) 2, jsRemainder (y0 + y1) 2))"

definition mirrorX :: "Point list \<Rightarrow> Point \<Rightarrow> Point" where
  "mirrorX points q = (2 * fst (ellipseCentre points) - fst (ellipseEven points) - fst q, snd q)"

definition mirrorY :: "Point list \<Rightarrow> Point \<Rightarrow> Point" where
  "mirrorY points q = (fst q, 2 * snd (ellipseCentre points) - snd (ellipseEven points) - snd q)"

section \<open>Move\<close>

text \<open>
  The host's \<^verbatim>\<open>translate(dx, dy)\<close>, \<^verbatim>\<open>drawImage(image, 0, 0)\<close>,
  \<^verbatim>\<open>resetTransform()\<close> in a row, on whole offsets: the pixel \<open>q\<close> of the image lands on
  \<open>q + (dx, dy)\<close>, clipped to the canvas. A transparent pixel of the image leaves the
  destination as it is; any other pixel is stored. That is exact on a cleared destination,
  the only use the tools make of it.
\<close>

definition drawImage :: "Canvas \<Rightarrow> int \<Rightarrow> int \<Rightarrow> Canvas \<Rightarrow> Canvas" where
  "drawImage img dx dy ctx =
     ctx\<lparr>pixels := (\<lambda>q.
        if inCanvas q ctx \<and> inCanvas (fst q - dx, snd q - dy) img
             \<and> pixels img (fst q - dx, snd q - dy) \<noteq> transparent
        then pixels img (fst q - dx, snd q - dy)
        else pixels ctx q)\<rparr>"

definition Move :: "Point list \<Rightarrow> Canvas \<Rightarrow> Canvas \<Rightarrow> error + Canvas" where
  "Move points workingCanvas originalCanvas =
     (if points = [] then Inl TypeError
      else
        let startPoint = points ! 0;
            xOffset = fst (points ! (length points - 1)) - fst startPoint;
            yOffset = snd (points ! (length points - 1)) - snd startPoint;
            ctx = clearRect 0 0 (width workingCanvas) (height workingCanvas) workingCanvas
        in Inr (drawImage originalCanvas xOffset yOffset ctx))"

section \<open>Bucket\<close>

text \<open>
  \<^verbatim>\<open>floodFill\<close> mutates the canvas behind \<^verbatim>\<open>ctx\<close> and calls itself four times in a
  row; the canvas is passed from each call to the next. The recursion has no bound, so the
  result is an option: \<open>None\<close> is a call that never returns. The optional parameter
  \<^verbatim>\<open>searchColor\<close> is an option too, \<open>None\<close> when it is left out.
\<close>

partial_function (option) floodFill :: "Canvas \<Rightarrow> Point \<Rightarrow> rgba option \<Rightarrow> Canvas option" where
  "floodFill ctx point searchColor =
     (if \<not> inCanvas point ctx then Some ctx
      else
        let color = getPixelColor point ctx
        in if (case searchColor of None \<Rightarrow> False | Some c \<Rightarrow> \<not> isEqual color c) then Some ctx
           else
             Option.bind (floodFill (paintPixel point (erasePixel point ctx))
                            (fst point - 1, snd point) (Some color)) (\<lambda>ctx.
             Option.bind (floodFill ctx (fst point + 1, snd point) (Some color)) (\<lambda>ctx.
             Option.bind (floodFill ctx (fst point, snd point - 1) (Some color)) (\<lambda>ctx.
             floodFill ctx (fst point, snd point + 1) (Some color)))))"

text \<open>
  Two parts of the body of \<^verbatim>\<open>floodFill\<close>, named for the statements about it: the four
  recursive calls in the order of the source, each on the canvas the one before left, and
  the effect of \<^verbatim>\<open>erasePixel\<close> followed by \<^verbatim>\<open>paintPixel\<close> on a pixel of the canvas.
\<close>

definition spread :: "Canvas \<Rightarrow> Point \<Rightarrow> rgba \<Rightarrow> Canvas option" where
  "spread ctx point color =
     Option.bind (floodFill ctx (fst point - 1, snd point) (Some color)) (\<lambda>ctx.
     Option.bind (floodFill ctx (fst point + 1, snd point) (Some color)) (\<lambda>ctx.
     Option.bind (floodFill ctx (fst point, snd point - 1) (Some color)) (\<lambda>ctx.
     floodFill ctx (fst point, snd point + 1) (Some color))))"

definition repaint :: "Point \<Rightarrow> Canvas \<Rightarrow> Canvas" where
  "repaint p ctx = ctx\<lparr>pixels := (pixels ctx)(p := fillStyle ctx)\<rparr>"

text \<open>
  The tool sets the fill style before it reads the last point. Its result is \<open>None\<close> when
  the fill never returns, an error for the empty point list, the canvas otherwise.
\<close>

definition Bucket ::
  "(Color \<Rightarrow> rgba option) \<Rightarrow> ToolboxState \<Rightarrow> Point list \<Rightarrow> Canvas \<Rightarrow> (error + Canvas) option" where
  "Bucket css st points canvas =
     (let ctx = setFillStyle css (fgColor st) canvas
      in if points = [] then Some (Inl TypeError)
         else
           let lastPoint = points ! (length points - 1)
           in map_option Inr (floodFill ctx lastPoint None))"

text \<open>
  The words of the specification: the pixels of the canvas that hold a colour, the four
  neighbours of a pixel, and the 4-connected region of a colour around a seed.
\<close>

definition matching :: "Canvas \<Rightarrow> rgba \<Rightarrow> Point set" where
  "matching ctx c = {q. inCanvas q ctx \<and> pixels ctx q = c}"

definition neighbours :: "Point \<Rightarrow> Point list" where
  "neighbours q = [(fst q - 1, snd q), (fst q + 1, snd q), (fst q, snd q - 1), (fst q, snd q + 1)]"

inductive_set region :: "Canvas \<Rightarrow> rgba \<Rightarrow> Point \<Rightarrow> Point set" for ctx c seed where
  seed: "seed \<in> matching ctx c \<Longrightarrow> seed \<in> region ctx c seed"
| grow: "q \<in> region ctx c seed \<Longrightarrow> q' \<in> set (neighbours q) \<Longrightarrow> q' \<in> matching ctx c
           \<Longrightarrow> q' \<in> region ctx c seed"

text \<open>
  \<open>paintedWithin R ctx ctx'\<close>: the canvas \<open>ctx'\<close> is \<open>ctx\<close> except that pixels of \<open>R\<close> may
  have been given the fill colour.
\<close>

definition paintedWithin :: "Point set \<Rightarrow> Canvas \<Rightarrow> Canvas \<Rightarrow> bool" where
  "paintedWithin R ctx ctx' \<longleftrightarrow>
     width ctx' = width ctx \<and> height ctx' = height ctx \<and> fillStyle ctx' = fillStyle ctx \<and>
     (\<forall>q. pixels ctx' q \<noteq> pixels ctx q \<longrightarrow> q \<in> R \<and> pixels ctx' q = fillStyle ctx)"

section \<open>Concrete inputs\<close>

definition st0 :: ToolboxState where
  "st0 = \<lparr>fgColor = ''#000000ff'', bgColor = ''#ffffffff'', brushSize = 1\<rparr>"

definition cv0 :: Canvas where
  "cv0 = \<lparr>width = 4, height = 4, fillStyle = (0, 0, 0, 255),
           pixels = (\<lambda>q. if q = (1, 1) then (255, 0, 16, 255) else transparent)\<rparr>"

definition css0 :: "Color \<Rightarrow> rgba option" where
  "css0 c = (if c = ''#000000ff'' then Some (0, 0, 0, 255)
             else if c = ''#ffffffff'' then Some (255, 255, 255, 255) else None)"

definition blank32 :: Canvas where
  "blank32 = \<lparr>width = 32, height = 32, fillStyle = (0, 0, 0, 255), pixels = (\<lambda>q. transparent)\<rparr>"

text \<open>
  A whole-number radius test for the concrete example: the lattice point \<open>(x, y)\<close> is on or
  inside the ellipse of half-axes \<open>a\<close> and \<open>b\<close>.
\<close>

definition lattice :: "int \<Rightarrow> int \<Rightarrow> int \<Rightarrow> int \<Rightarrow> bool" where
  "lattice a b x y \<longleftrightarrow> x * x * (b * b) + y * y * (a * a) \<le> a * a * (b * b)"

definition cvDot :: Canvas where
  "cvDot = \<lparr>width = 4, height = 4, fillStyle = (0, 0, 0, 255),
           pixels = (\<lambda>q. if q = (1, 1) \<or> q = (3, 3) then (255, 0, 16, 255) else transparent)\<rparr>"

text \<open>
  A 5 by 5 canvas with a border of colour \<open>X\<close>, one pixel thick, an interior of colour \<open>Y\<close>
  and fill colour \<open>Z\<close>; the rows of a canvas, top to bottom; a 2 by 1 canvas of opaque black.
\<close>

definition bordered :: "rgba \<Rightarrow> rgba \<Rightarrow> rgba \<Rightarrow> Canvas" where
  "bordered X Y Z =
     \<lparr>width = 5, height = 5, fillStyle = Z,
      pixels = (\<lambda>q. if 1 \<le> fst q \<and> fst q \<le> 3 \<and> 1 \<le> snd q \<and> snd q \<le> 3 then Y else X)\<rparr>"

definition rows :: "Canvas \<Rightarrow> rgba list list" where
  "rows ctx = map (\<lambda>y. map (\<lambda>x. getPixelColor (x, y) ctx) [0..width ctx - 1]) [0..height ctx - 1]"

definition black2 :: Canvas where
  "black2 = \<lparr>width = 2, height = 1, fillStyle = (255, 255, 255, 255),
              pixels = (\<lambda>q. (0, 0, 0, 255))\<rparr>"

section \<open>Line: the endpoints of the segment\<close>

text \<open>
  C2, as the code has it. For a sequence of at least two points the tool makes one call of
  \<^verbatim>\<open>drawLine\<close>, from the second point to the point before the last one (index
  \<open>length - 2\<close>), with the foreground colour and the brush size; for a single point both
  endpoints are that point.
\<close>

theorem Line_second_to_last_but_one:
  "(2 \<le> length points \<longrightarrow>
      Line drawLine st points canvas =
        Inr (drawLine (points ! 1) (points ! (length points - 2))
               (fgColor st) (brushSize st) canvas)) \<and>
   Line drawLine st [p] canvas = Inr (drawLine p p (fgColor st) (brushSize st) canvas)"
  by (auto simp: Line_def nat_diff_distrib')

theorem Line_second_to_last_but_one_witness:
  "2 \<le> length [(0, 0), (3, 0), (7, 0) :: Point] \<and>
   Line recordLine st0 [(0, 0), (3, 0), (7, 0)] [] = Inr [((3, 0), (3, 0), ''#000000ff'', 1)]"
  using Line_second_to_last_but_one [of "[(0, 0), (3, 0), (7, 0)]" recordLine st0 "[]"]
  by (simp add: recordLine_def st0_def)

text \<open>
  C2 as stated fails: on three points the segment does not end at the last point.
\<close>

theorem Line_last_point_counterexample:
  "Line recordLine st0 [(0, 0), (3, 0), (7, 0)] [] \<noteq>
     Inr (recordLine (3, 0) (7, 0) (fgColor st0) (brushSize st0) [])"
  by (simp add: Line_def recordLine_def)

section \<open>Eyedropper\<close>

lemma hexDigit_zero: "d < 16 \<Longrightarrow> hexDigit d = CHR ''0'' \<longleftrightarrow> d = 0"
proof -
  assume d: "d < 16"
  have dist: "distinct ''0123456789abcdef''" by simp
  have "(''0123456789abcdef'' ! d = ''0123456789abcdef'' ! 0) = (d = 0)"
    using d by (intro nth_eq_iff_index_eq[OF dist]) simp_all
  then show ?thesis by (simp add: hexDigit_def)
qed

lemma byte_less_256: "unat (i :: 8 word) < 256"
  using unsigned_less[of i, where ?'a = nat] by simp

lemma padStart_toString16: "padStart 2 (CHR ''0'') (toString16 (unat (i :: 8 word))) = twoHexDigits i"
proof (cases "unat i < 16")
  case True
  then show ?thesis by (simp add: padStart_def twoHexDigits_def hexDigit_def)
next
  case False
  with byte_less_256[of i] have "unat i div 16 < 16" by simp
  with False show ?thesis by (simp add: padStart_def twoHexDigits_def)
qed

lemma twoHexDigits_zero: "twoHexDigits i = ''00'' \<longleftrightarrow> i = 0"
proof -
  have a: "unat i div 16 < 16" using byte_less_256[of i] by simp
  have b: "unat i mod 16 < 16" by simp
  have "twoHexDigits i = ''00'' \<longleftrightarrow> unat i div 16 = 0 \<and> unat i mod 16 = 0"
    using hexDigit_zero[OF a] hexDigit_zero[OF b] by (simp add: twoHexDigits_def)
  also have "\<dots> \<longleftrightarrow> unat i = 0" by auto
  also have "\<dots> \<longleftrightarrow> i = 0" by (simp add: unat_eq_0)
  finally show ?thesis .
qed

lemma color_all_zero:
  "twoHexDigits r @ twoHexDigits g @ twoHexDigits b @ twoHexDigits a = ''00000000''
     \<longleftrightarrow> (r, g, b, a) = transparent"
proof -
  obtain r1 r2 where r: "twoHexDigits r = [r1, r2]" by (simp add: twoHexDigits_def)
  obtain g1 g2 where g: "twoHexDigits g = [g1, g2]" by (simp add: twoHexDigits_def)
  obtain b1 b2 where b: "twoHexDigits b = [b1, b2]" by (simp add: twoHexDigits_def)
  obtain a1 a2 where a: "twoHexDigits a = [a1, a2]" by (simp add: twoHexDigits_def)
  show ?thesis
    using twoHexDigits_zero[of r] twoHexDigits_zero[of g] twoHexDigits_zero[of b]
      twoHexDigits_zero[of a]
    unfolding r g b a transparent_def by auto
qed

text \<open>
  C6. On a non-empty point sequence the tool reads the pixel at the last point of the
  working canvas. If all four channels are zero the toolbox state is returned as it was;
  otherwise only the foreground colour changes, to \<open>#rrggbbaa\<close> of the sampled pixel,
  two hexadecimal digits per channel.
\<close>

theorem Eyedropper_sets_foreground:
  assumes "points \<noteq> []"
  shows "Eyedropper st points canvas =
     Inr (if getImageData (last points) canvas = transparent then st
          else st\<lparr>fgColor := rrggbbaa (getImageData (last points) canvas)\<rparr>)"
proof -
  obtain r g b a where c: "getImageData (last points) canvas = (r, g, b, a)"
    by (cases "getImageData (last points) canvas") auto
  have l: "points ! (length points - Suc 0) = last points"
    using assms by (simp add: last_conv_nth)
  show ?thesis using assms color_all_zero[of r g b a]
    by (simp add: Eyedropper_def l c padStart_toString16 rrggbbaa_def setFgColor_def
        del: toString16.simps)
qed

theorem Eyedropper_sets_foreground_witness:
  "[(0, 0), (1, 1)] \<noteq> ([] :: Point list) \<and>
   Eyedropper st0 [(0, 0), (1, 1)] cv0 = Inr (st0\<lparr>fgColor := ''#ff0010ff''\<rparr>) \<and>
   Eyedropper st0 [(1, 1), (2, 1)] cv0 = Inr st0"
  using Eyedropper_sets_foreground [of "[(0, 0), (1, 1)]" st0 cv0]
    Eyedropper_sets_foreground [of "[(1, 1), (2, 1)]" st0 cv0]
  by (simp add: cv0_def getImageData_def inCanvas_def transparent_def rrggbbaa_def
      twoHexDigits_def hexDigit_def)

section \<open>Rectangle: the fill and the frame\<close>

lemma pixels_fillRect: "pixels (fillRect x0 y0 w h ctx) q = (if inRect x0 y0 w h q \<and> inCanvas q ctx then fillStyle ctx else pixels ctx q)"
  by (simp add: fillRect_def)
lemma inCanvas_fillRect[simp]: "inCanvas q (fillRect x0 y0 w h ctx) = inCanvas q ctx"
  by (simp add: fillRect_def inCanvas_def)
lemma fillStyle_fillRect[simp]: "fillStyle (fillRect x0 y0 w h ctx) = fillStyle ctx"
  by (simp add: fillRect_def)
lemma inCanvas_fillStyle_update[simp]: "inCanvas q (ctx\<lparr>fillStyle := v\<rparr>) = inCanvas q ctx"
  by (simp add: inCanvas_def)
lemma setFillStyle_Some: "css c = Some v \<Longrightarrow> setFillStyle css c ctx = ctx\<lparr>fillStyle := v\<rparr>"
  by (simp add: setFillStyle_def)
lemma inCanvas_setFillStyle[simp]: "inCanvas q (setFillStyle css c ctx) = inCanvas q ctx"
  by (simp add: setFillStyle_def inCanvas_def split: option.splits)
lemma pixels_setFillStyle[simp]: "pixels (setFillStyle css c ctx) = pixels ctx"
  by (simp add: setFillStyle_def split: option.splits)

lemma inRect_pos: "0 \<le> w \<Longrightarrow> 0 \<le> h \<Longrightarrow>
   inRect x0 y0 w h q \<longleftrightarrow> x0 \<le> fst q \<and> fst q < x0 + w \<and> y0 \<le> snd q \<and> snd q < y0 + h"
  by (simp add: inRect_def min_def max_def)

lemma inRect_neg: "w \<le> 0 \<Longrightarrow> h \<le> 0 \<Longrightarrow>
   inRect x0 y0 w h q \<longleftrightarrow> x0 + w \<le> fst q \<and> fst q < x0 \<and> y0 + h \<le> snd q \<and> snd q < y0"
  by (simp add: inRect_def min_def max_def)

lemma bbox_extent:
  assumes "getBoundingBoxIncludingBrush points b = ((sx, sy), (ex, ey))"
  shows "sx + b - 1 \<le> ex \<and> sy + b - 1 \<le> ey"
proof -
  define p where "p = points ! 0"
  define q where "q = points ! (length points - 1)"
  let ?xs = "{fst p, fst p - b + 1, fst q, fst q - b + 1}"
  let ?ys = "{snd p, snd p - b + 1, snd q, snd q - b + 1}"
  have eq: "sx = Min ?xs" "ex = Max ?xs" "sy = Min ?ys" "ey = Max ?ys"
    using assms by (simp_all add: getBoundingBoxIncludingBrush_def Let_def p_def q_def del: Min_insert Max_insert)
  have "Min ?xs \<le> fst p - b + 1" by (rule Min_le) simp_all
  moreover have "fst p \<le> Max ?xs" by (rule Max_ge) simp_all
  moreover have "Min ?ys \<le> snd p - b + 1" by (rule Min_le) simp_all
  moreover have "snd p \<le> Max ?ys" by (rule Max_ge) simp_all
  ultimately show ?thesis unfolding eq by linarith
qed

lemma frame_strips:
  assumes "sx + b - 1 \<le> ex" "sy + b - 1 \<le> ey" "1 \<le> (b::int)"
  shows "inRect sx sy (ex - sx + 1) b q \<or> inRect (ex + 1) (ey + 1) (- (ex - sx + 1)) (- b) q \<or>
         inRect sx sy b (ey - sy + 1) q \<or> inRect (ex + 1) (ey + 1) (- b) (- (ey - sy + 1)) q
         \<longleftrightarrow> inBox ((sx, sy), (ex, ey)) q \<and> onFrame ((sx, sy), (ex, ey)) b q"
proof -
  have p: "0 \<le> ex - sx + 1" "0 \<le> ey - sy + 1" "0 \<le> b" using assms by auto
  have n: "- (ex - sx + 1) \<le> 0" "- (ey - sy + 1) \<le> 0" "- b \<le> 0" using assms by auto
  show ?thesis
    unfolding inRect_pos[OF p(1) p(3)] inRect_pos[OF p(3) p(2)] inRect_neg[OF n(1) n(3)] inRect_neg[OF n(3) n(2)]
       inBox_def onFrame_def fst_conv snd_conv
    using assms by linarith
qed

lemma fillRect_union:
  assumes "\<And>q. pixels c q = (if inCanvas q c0 \<and> R q then fillStyle c else pixels c0 q)"
    and "\<And>q. inCanvas q c = inCanvas q c0"
  shows "pixels (fillRect x0 y0 w h c) q =
     (if inCanvas q c0 \<and> (R q \<or> inRect x0 y0 w h q) then fillStyle c else pixels c0 q)"
  unfolding pixels_fillRect assms by auto

lemma five_rects:
  "pixels (fillRect x4 y4 w4 h4 (fillRect x3 y3 w3 h3 (fillRect x2 y2 w2 h2 (fillRect x1 y1 w1 h1 c)))) q =
     (if inCanvas q c \<and> (inRect x1 y1 w1 h1 q \<or> inRect x2 y2 w2 h2 q \<or> inRect x3 y3 w3 h3 q \<or> inRect x4 y4 w4 h4 q)
      then fillStyle c else pixels c q)"
proof -
  define c1 where "c1 = fillRect x1 y1 w1 h1 c"
  define c2 where "c2 = fillRect x2 y2 w2 h2 c1"
  define c3 where "c3 = fillRect x3 y3 w3 h3 c2"
  have f: "fillStyle c1 = fillStyle c" "fillStyle c2 = fillStyle c" "fillStyle c3 = fillStyle c"
    by (simp_all add: c1_def c2_def c3_def)
  have i: "inCanvas q c1 = inCanvas q c" "inCanvas q c2 = inCanvas q c" "inCanvas q c3 = inCanvas q c" for q
    by (simp_all add: c1_def c2_def c3_def)
  have p1: "pixels c1 q = (if inCanvas q c \<and> inRect x1 y1 w1 h1 q then fillStyle c1 else pixels c q)" for q
    unfolding c1_def pixels_fillRect fillStyle_fillRect by auto
  have p2: "pixels c2 q = (if inCanvas q c \<and> (inRect x1 y1 w1 h1 q \<or> inRect x2 y2 w2 h2 q) then fillStyle c2 else pixels c q)" for q
    unfolding c2_def fillStyle_fillRect by (rule fillRect_union[OF p1 i(1)])
  have p3: "pixels c3 q = (if inCanvas q c \<and> ((inRect x1 y1 w1 h1 q \<or> inRect x2 y2 w2 h2 q) \<or> inRect x3 y3 w3 h3 q) then fillStyle c3 else pixels c q)" for q
    unfolding c3_def fillStyle_fillRect by (rule fillRect_union[OF p2 i(2)])
  have "pixels (fillRect x4 y4 w4 h4 c3) q = (if inCanvas q c \<and> (((inRect x1 y1 w1 h1 q \<or> inRect x2 y2 w2 h2 q) \<or> inRect x3 y3 w3 h3 q) \<or> inRect x4 y4 w4 h4 q) then fillStyle c3 else pixels c q)"
    by (rule fillRect_union[OF p3 i(3)])
  then show ?thesis unfolding c3_def c2_def c1_def fillStyle_fillRect by (simp only: disj_assoc)
qed

lemma Rectangle_unfold:
  assumes "points \<noteq> []" "getBoundingBoxIncludingBrush points (brushSize st) = ((sx, sy), (ex, ey))"
  shows "Rectangle css st points canvas = Inr (fillRect (ex + 1) (ey + 1) (- brushSize st) (- (ey - sy + 1))
          (fillRect sx sy (brushSize st) (ey - sy + 1)
            (fillRect (ex + 1) (ey + 1) (- (ex - sx + 1)) (- brushSize st)
              (fillRect sx sy (ex - sx + 1) (brushSize st)
                 (setFillStyle css (fgColor st) (fillRect sx sy (ex - sx + 1) (ey - sy + 1) (setFillStyle css (bgColor st) canvas)))))))"
  using assms(1) unfolding Rectangle_def assms(2) Let_def by simp

lemma Rectangle_pixels:
  assumes "points \<noteq> []" "1 \<le> brushSize st"
    and box: "getBoundingBoxIncludingBrush points (brushSize st) = ((sx, sy), (ex, ey))"
  shows "\<exists>ctx'. Rectangle css st points canvas = Inr ctx' \<and>
     (\<forall>q. pixels ctx' q =
        (if inCanvas q canvas \<and> inBox ((sx, sy), (ex, ey)) q
         then if onFrame ((sx, sy), (ex, ey)) (brushSize st) q
              then fillStyle (setFillStyle css (fgColor st) (setFillStyle css (bgColor st) canvas))
              else fillStyle (setFillStyle css (bgColor st) canvas)
         else pixels canvas q))"
proof -
  note ext = bbox_extent[OF box]
  have w: "0 \<le> ex - sx + 1" "0 \<le> ey - sy + 1" using ext assms(2) by auto
  have e: "sx + brushSize st - 1 \<le> ex" "sy + brushSize st - 1 \<le> ey" using ext by auto
  define c0 where "c0 = setFillStyle css (bgColor st) canvas"
  define c1 where "c1 = fillRect sx sy (ex - sx + 1) (ey - sy + 1) c0"
  define c2 where "c2 = setFillStyle css (fgColor st) c1"
  have p1: "pixels c1 q = (if inCanvas q canvas \<and> inBox ((sx, sy), (ex, ey)) q then fillStyle c0 else pixels canvas q)" for q
    unfolding c1_def pixels_fillRect inRect_pos[OF w] by (simp add: c0_def inBox_def)
  have i2: "inCanvas q c2 = inCanvas q canvas" for q by (simp add: c2_def c1_def c0_def)
  have p2: "pixels c2 = pixels c1" by (simp add: c2_def)
  have f2: "fillStyle c2 = fillStyle (setFillStyle css (fgColor st) c0)"
    by (simp add: c2_def c1_def setFillStyle_def fillRect_def split: option.splits)
  have "pixels (fillRect (ex + 1) (ey + 1) (- brushSize st) (- (ey - sy + 1))
          (fillRect sx sy (brushSize st) (ey - sy + 1)
            (fillRect (ex + 1) (ey + 1) (- (ex - sx + 1)) (- brushSize st)
              (fillRect sx sy (ex - sx + 1) (brushSize st) c2)))) q =
        (if inCanvas q canvas \<and> inBox ((sx, sy), (ex, ey)) q
         then if onFrame ((sx, sy), (ex, ey)) (brushSize st) q
              then fillStyle (setFillStyle css (fgColor st) c0)
              else fillStyle c0
         else pixels canvas q)" for q
    unfolding five_rects frame_strips[OF e assms(2)] i2 p2 p1 f2 by simp
  then show ?thesis
    unfolding Rectangle_unfold[OF assms(1) box] c2_def c1_def c0_def by blast
qed




text \<open>
  C10. With a brush size of at least 1, each of the five rectangles the tool fills (the
  background fill and the four edge strips, two of them of negative width and height,
  anchored at \<open>(end.x + 1, end.y + 1)\<close>) lies inside the brush-inflated bounding box of the
  first and last points, and the tool leaves every pixel outside that box as it was.
\<close>

theorem Rectangle_within_box:
  assumes "points \<noteq> []" "1 \<le> brushSize st"
  shows "case getBoundingBoxIncludingBrush points (brushSize st) of ((sx, sy), (ex, ey)) \<Rightarrow>
     (\<forall>q. inRect sx sy (ex - sx + 1) (ey - sy + 1) q \<or>
          inRect sx sy (ex - sx + 1) (brushSize st) q \<or>
          inRect (ex + 1) (ey + 1) (- (ex - sx + 1)) (- brushSize st) q \<or>
          inRect sx sy (brushSize st) (ey - sy + 1) q \<or>
          inRect (ex + 1) (ey + 1) (- brushSize st) (- (ey - sy + 1)) q
          \<longrightarrow> inBox ((sx, sy), (ex, ey)) q) \<and>
     (\<exists>ctx'. Rectangle css st points canvas = Inr ctx' \<and>
        (\<forall>q. \<not> inBox ((sx, sy), (ex, ey)) q \<longrightarrow> pixels ctx' q = pixels canvas q))"
proof -
  obtain sx sy ex ey
    where box: "getBoundingBoxIncludingBrush points (brushSize st) = ((sx, sy), (ex, ey))"
    by (metis surj_pair)
  note ext = bbox_extent[OF box]
  have w: "0 \<le> ex - sx + 1" "0 \<le> ey - sy + 1" using ext assms(2) by auto
  have e: "sx + brushSize st - 1 \<le> ex" "sy + brushSize st - 1 \<le> ey" using ext by auto
  have whole: "inRect sx sy (ex - sx + 1) (ey - sy + 1) q \<longleftrightarrow> inBox ((sx, sy), (ex, ey)) q" for q
    unfolding inRect_pos[OF w] inBox_def fst_conv snd_conv by auto
  have a: "inRect sx sy (ex - sx + 1) (ey - sy + 1) q \<or>
          inRect sx sy (ex - sx + 1) (brushSize st) q \<or>
          inRect (ex + 1) (ey + 1) (- (ex - sx + 1)) (- brushSize st) q \<or>
          inRect sx sy (brushSize st) (ey - sy + 1) q \<or>
          inRect (ex + 1) (ey + 1) (- brushSize st) (- (ey - sy + 1)) q
          \<longrightarrow> inBox ((sx, sy), (ex, ey)) q" for q
    unfolding frame_strips[OF e assms(2)] whole by blast
  from Rectangle_pixels[OF assms box, of css canvas] obtain ctx'
    where "Rectangle css st points canvas = Inr ctx'"
      and "\<And>q. \<not> inBox ((sx, sy), (ex, ey)) q \<Longrightarrow> pixels ctx' q = pixels canvas q"
    by auto
  with a show ?thesis unfolding box by auto
qed

theorem Rectangle_within_box_witness:
  "[(4, 4), (6, 9)] \<noteq> ([] :: Point list) \<and> 1 \<le> brushSize (st0\<lparr>brushSize := 3\<rparr>) \<and>
   getBoundingBoxIncludingBrush [(4, 4), (6, 9)] 3 = ((2, 2), (6, 9)) \<and>
   (\<exists>ctx'. Rectangle css0 (st0\<lparr>brushSize := 3\<rparr>) [(4, 4), (6, 9)] blank32 = Inr ctx' \<and>
      pixels ctx' (1, 5) = pixels blank32 (1, 5) \<and> pixels ctx' (7, 10) = pixels blank32 (7, 10))"
proof -
  have h: "[(4, 4), (6, 9)] \<noteq> ([] :: Point list)" "1 \<le> brushSize (st0\<lparr>brushSize := 3\<rparr>)"
    by simp_all
  have b: "getBoundingBoxIncludingBrush [(4, 4), (6, 9)] 3 = ((2, 2), (6, 9))"
    by (simp add: getBoundingBoxIncludingBrush_def)
  have "\<exists>ctx'. Rectangle css0 (st0\<lparr>brushSize := 3\<rparr>) [(4, 4), (6, 9)] blank32 = Inr ctx' \<and>
        (\<forall>q. \<not> inBox ((2, 2), (6, 9)) q \<longrightarrow> pixels ctx' q = pixels blank32 q)"
    using Rectangle_within_box[OF h, of css0 blank32] by (simp add: b)
  then obtain ctx'
    where r: "Rectangle css0 (st0\<lparr>brushSize := 3\<rparr>) [(4, 4), (6, 9)] blank32 = Inr ctx'"
      and p: "\<And>q. \<not> inBox ((2, 2), (6, 9)) q \<Longrightarrow> pixels ctx' q = pixels blank32 q"
    by blast
  have "pixels ctx' (1, 5) = pixels blank32 (1, 5)" "pixels ctx' (7, 10) = pixels blank32 (7, 10)"
    by (rule p, simp add: inBox_def)+
  with h b r show ?thesis by simp
qed

section \<open>Ellipse: mirror symmetry\<close>

lemma ellipseRects_mem:
  "q \<in> set (ellipseRects beyond within points bsize fill) \<longleftrightarrow>
     (\<exists>p \<in> set (ellipseQuadrant beyond within points bsize fill).
        q = (fst (ellipseCentre points) + fst p, snd (ellipseCentre points) + snd p) \<or>
        q = (fst (ellipseCentre points) - fst p - fst (ellipseEven points), snd (ellipseCentre points) + snd p) \<or>
        q = (fst (ellipseCentre points) + fst p, snd (ellipseCentre points) - snd p - snd (ellipseEven points)) \<or>
        q = (fst (ellipseCentre points) - fst p - fst (ellipseEven points),
             snd (ellipseCentre points) - snd p - snd (ellipseEven points)))"
  unfolding ellipseRects_def ellipseCentre_def ellipseEven_def Let_def case_prod_beta
    set_concat set_map fst_conv snd_conv
  by (simp add: Bex_def)

lemma mirrorX_rects:
  "q \<in> set (ellipseRects beyond within points bsize fill) \<Longrightarrow>
     mirrorX points q \<in> set (ellipseRects beyond within points bsize fill)"
  unfolding ellipseRects_mem mirrorX_def
  by (elim bexE disjE; rule_tac x = p in bexI; simp)

lemma mirrorY_rects:
  "q \<in> set (ellipseRects beyond within points bsize fill) \<Longrightarrow>
     mirrorY points q \<in> set (ellipseRects beyond within points bsize fill)"
  unfolding ellipseRects_mem mirrorY_def
  by (elim bexE disjE; rule_tac x = p in bexI; simp)

lemma mirrorX_invol: "mirrorX points (mirrorX points q) = q"
  by (simp add: mirrorX_def)

lemma mirrorY_invol: "mirrorY points (mirrorY points q) = q"
  by (simp add: mirrorY_def)

lemma pixels_fold_fillRect:
  "pixels (fold (\<lambda>q. fillRect (fst q) (snd q) 1 1) qs ctx) p =
     (if p \<in> set qs \<and> inCanvas p ctx then fillStyle ctx else pixels ctx p)"
proof (induction qs arbitrary: ctx)
  case Nil
  show ?case by simp
next
  case (Cons q qs)
  have r: "inRect (fst q) (snd q) 1 1 p \<longleftrightarrow> p = q"
    by (cases p; cases q) (auto simp: inRect_def)
  show ?case
    unfolding fold_Cons comp_apply Cons.IH inCanvas_fillRect fillStyle_fillRect pixels_fillRect r
    by auto
qed

text \<open>
  C8. On a non-empty point sequence the tool runs \<^verbatim>\<open>ellipse\<close> twice, first with the
  background colour and \<open>fill\<close> true, then with the foreground colour and \<open>fill\<close> false.
  For either pass, whatever the points, the brush size and the two radius tests: the set
  of pixels at which \<^verbatim>\<open>ellipse\<close> fills a 1 by 1 rectangle is mapped onto itself by
  \<open>x \<mapsto> 2 * xC - evenX - x\<close> and by \<open>y \<mapsto> 2 * yC - evenY - y\<close>, and the pass paints exactly
  the pixels of that set that lie on the canvas.
\<close>

theorem Ellipse_mirror:
  assumes "points \<noteq> []"
  shows "Ellipse css beyond within st points canvas =
       Inr (ellipse beyond within points (brushSize st)
              (setFillStyle css (fgColor st)
                 (ellipse beyond within points (brushSize st)
                    (setFillStyle css (bgColor st) canvas) True))
              False) \<and>
     (q \<in> set (ellipseRects beyond within points (brushSize st) fill) \<longleftrightarrow>
        mirrorX points q \<in> set (ellipseRects beyond within points (brushSize st) fill)) \<and>
     (q \<in> set (ellipseRects beyond within points (brushSize st) fill) \<longleftrightarrow>
        mirrorY points q \<in> set (ellipseRects beyond within points (brushSize st) fill)) \<and>
     pixels (ellipse beyond within points (brushSize st) ctx fill) q =
       (if q \<in> set (ellipseRects beyond within points (brushSize st) fill) \<and> inCanvas q ctx
        then fillStyle ctx else pixels ctx q)"
proof -
  have "Ellipse css beyond within st points canvas =
       Inr (ellipse beyond within points (brushSize st)
              (setFillStyle css (fgColor st)
                 (ellipse beyond within points (brushSize st)
                    (setFillStyle css (bgColor st) canvas) True))
              False)"
    using assms by (simp add: Ellipse_def Let_def)
  then show ?thesis
    using mirrorX_rects[of q beyond within points "brushSize st" fill]
      mirrorX_rects[of "mirrorX points q" beyond within points "brushSize st" fill]
      mirrorY_rects[of q beyond within points "brushSize st" fill]
      mirrorY_rects[of "mirrorY points q" beyond within points "brushSize st" fill]
    unfolding mirrorX_invol mirrorY_invol ellipse_def pixels_fold_fillRect by blast
qed

theorem Ellipse_mirror_witness:
  "[(0, 0), (3, 2)] \<noteq> ([] :: Point list) \<and>
   mirrorX [(0, 0), (3, 2)] (2, 2) = (1, 2) \<and> mirrorY [(0, 0), (3, 2)] (2, 2) = (2, 0) \<and>
   (2, 2) \<in> set (ellipseRects lattice lattice [(0, 0), (3, 2)] (brushSize st0) True) \<and>
   (1, 2) \<in> set (ellipseRects lattice lattice [(0, 0), (3, 2)] (brushSize st0) True) \<and>
   (2, 0) \<in> set (ellipseRects lattice lattice [(0, 0), (3, 2)] (brushSize st0) True)"
proof -
  have h: "[(0, 0), (3, 2)] \<noteq> ([] :: Point list)" by simp
  have m: "mirrorX [(0, 0), (3, 2)] (2, 2) = (1, 2)" "mirrorY [(0, 0), (3, 2)] (2, 2) = (2, 0)"
    by (simp_all add: mirrorX_def mirrorY_def ellipseCentre_def ellipseEven_def getBoundingBox_def
        roundHalf_def jsRemainder_def)
  have a: "(2, 2) \<in> set (ellipseRects lattice lattice [(0, 0), (3, 2)] (brushSize st0) True)"
    by (simp add: ellipseRects_def ellipseQuadrant_def getBoundingBox_def roundHalf_def
        jsRemainder_def lattice_def upto_rec1 st0_def)
  show ?thesis
    using Ellipse_mirror[OF h, where q = "(2, 2)" and beyond = lattice and within = lattice
        and st = st0 and fill = True and css = css0 and canvas = blank32 and ctx = blank32] a h
    unfolding m by blast
qed

section \<open>Move: there and back\<close>

lemma Move_getImageData:
  assumes "points \<noteq> []"
  shows "\<exists>ctx'. Move points working original = Inr ctx' \<and>
     width ctx' = width working \<and> height ctx' = height working \<and>
     (\<forall>q. getImageData q ctx' =
        (if inCanvas q working
         then getImageData (fst q - (fst (last points) - fst (hd points)),
                            snd q - (snd (last points) - snd (hd points))) original
         else transparent))"
proof -
  have r: "inCanvas q working \<Longrightarrow> inRect 0 0 (width working) (height working) q" for q
    by (auto simp: inRect_def inCanvas_def)
  show ?thesis
    using assms r
    by (simp add: Move_def Let_def drawImage_def clearRect_def getImageData_def inCanvas_def
        hd_conv_nth last_conv_nth)
qed

text \<open>
  C9. A first interaction moves \<open>original\<close> by \<open>(dx, dy)\<close> onto the working canvas; a
  second one, whose original is that result and whose working canvas has the same size,
  moves by \<open>(- dx, - dy)\<close>. Every pixel \<open>q\<close> of the working canvas whose content stayed on
  the canvas in between (\<open>q + (dx, dy)\<close> is on it) reads as in the first original; every
  other pixel of the canvas reads transparent.
\<close>

theorem Move_round_trip:
  assumes "points1 \<noteq> []" "points2 \<noteq> []"
    and "fst (last points1) - fst (hd points1) = dx" "snd (last points1) - snd (hd points1) = dy"
    and "fst (last points2) - fst (hd points2) = - dx" "snd (last points2) - snd (hd points2) = - dy"
    and "width working2 = width working" "height working2 = height working"
  shows "\<exists>moved restored.
     Move points1 working original = Inr moved \<and> Move points2 working2 moved = Inr restored \<and>
     (\<forall>q. inCanvas q working \<and> inCanvas (fst q + dx, snd q + dy) working \<longrightarrow>
          getImageData q restored = getImageData q original) \<and>
     (\<forall>q. inCanvas q working \<and> \<not> inCanvas (fst q + dx, snd q + dy) working \<longrightarrow>
          getImageData q restored = transparent)"
proof -
  from Move_getImageData[OF assms(1), of working original] obtain moved
    where m: "Move points1 working original = Inr moved"
      and ms: "width moved = width working" "height moved = height working"
      and mp: "\<And>q. getImageData q moved =
        (if inCanvas q working then getImageData (fst q - dx, snd q - dy) original else transparent)"
    unfolding assms(3,4) by blast
  from Move_getImageData[OF assms(2), of working2 moved] obtain restored
    where b: "Move points2 working2 moved = Inr restored"
      and bp: "\<And>q. getImageData q restored =
        (if inCanvas q working2 then getImageData (fst q + dx, snd q + dy) moved else transparent)"
    unfolding assms(5,6) by auto
  have i: "inCanvas q working2 = inCanvas q working" for q
    by (simp add: inCanvas_def assms(7,8))
  have "getImageData q restored = getImageData q original"
    if "inCanvas q working" "inCanvas (fst q + dx, snd q + dy) working" for q
    using that by (simp add: bp mp i)
  moreover have "getImageData q restored = transparent"
    if "inCanvas q working" "\<not> inCanvas (fst q + dx, snd q + dy) working" for q
    using that by (simp add: bp mp i)
  ultimately show ?thesis using m b by blast
qed

theorem Move_round_trip_witness:
  "\<exists>moved restored.
     Move [(0, 0), (2, 1), (1, 1)] cvDot cvDot = Inr moved \<and>
     Move [(3, 3), (2, 2)] moved moved = Inr restored \<and>
     getImageData (2, 2) moved = (255, 0, 16, 255) \<and>
     getImageData (1, 1) restored = getImageData (1, 1) cvDot \<and>
     getImageData (0, 2) restored = getImageData (0, 2) cvDot \<and>
     getImageData (3, 3) cvDot = (255, 0, 16, 255) \<and> getImageData (3, 3) restored = transparent"
proof -
  have h: "[(0, 0), (2, 1), (1, 1)] \<noteq> ([] :: Point list)" "[(3, 3), (2, 2)] \<noteq> ([] :: Point list)"
    "fst (last [(0, 0), (2, 1), (1, 1 :: int)]) - fst (hd [(0 :: int, 0 :: int), (2, 1), (1, 1)]) = 1"
    "snd (last [(0 :: int, 0), (2, 1), (1, 1)]) - snd (hd [(0 :: int, 0 :: int), (2, 1), (1, 1)]) = 1"
    "fst (last [(3, 3 :: int), (2, 2)]) - fst (hd [(3 :: int, 3 :: int), (2, 2)]) = - 1"
    "snd (last [(3 :: int, 3), (2, 2)]) - snd (hd [(3 :: int, 3 :: int), (2, 2)]) = - 1"
    by simp_all
  obtain moved where m: "Move [(0, 0), (2, 1), (1, 1)] cvDot cvDot = Inr moved"
    and mw: "width moved = width cvDot" "height moved = height cvDot"
    and mp: "\<And>q. getImageData q moved =
        (if inCanvas q cvDot then getImageData (fst q - 1, snd q - 1) cvDot else transparent)"
    using Move_getImageData[OF h(1), of cvDot cvDot] by auto
  from Move_round_trip[OF h mw, where original = cvDot] m obtain restored
    where b: "Move [(3, 3), (2, 2)] moved moved = Inr restored"
      and k: "\<And>q. inCanvas q cvDot \<and> inCanvas (fst q + 1, snd q + 1) cvDot \<Longrightarrow>
          getImageData q restored = getImageData q cvDot"
      and l: "\<And>q. inCanvas q cvDot \<and> \<not> inCanvas (fst q + 1, snd q + 1) cvDot \<Longrightarrow>
          getImageData q restored = transparent"
    by auto
  have "getImageData (1, 1) restored = getImageData (1, 1) cvDot"
    "getImageData (0, 2) restored = getImageData (0, 2) cvDot"
    by (rule k, simp add: inCanvas_def cvDot_def)+
  moreover have "getImageData (3, 3) restored = transparent"
    by (rule l, simp add: inCanvas_def cvDot_def)
  moreover have "getImageData (2, 2) moved = (255, 0, 16, 255)"
    "getImageData (3, 3) cvDot = (255, 0, 16, 255)"
    by (simp_all add: mp) (simp_all add: getImageData_def inCanvas_def cvDot_def)
  ultimately show ?thesis using m b by blast
qed

section \<open>Bucket: the flood fill\<close>

lemma inRect_unit: "inRect (fst p) (snd p) 1 1 q \<longleftrightarrow> q = p"
  by (cases p; cases q) (auto simp: inRect_def)

lemma paint_erase:
  assumes "inCanvas p ctx"
  shows "paintPixel p (erasePixel p ctx) = repaint p ctx"
proof -
  have "(\<lambda>q. if q = p \<and> inCanvas q ctx then fillStyle ctx
             else if q = p \<and> inCanvas q ctx then transparent else pixels ctx q) =
        (pixels ctx)(p := fillStyle ctx)"
    using assms by (auto simp: fun_eq_iff)
  moreover have "inCanvas q (ctx\<lparr>pixels := f\<rparr>) = inCanvas q ctx" for q f
    by (simp add: inCanvas_def)
  ultimately show ?thesis
    by (simp add: paintPixel_def erasePixel_def fillRect_def clearRect_def repaint_def inRect_unit
        cong: if_cong)
qed

lemma floodFill_outside: "\<not> inCanvas p ctx \<Longrightarrow> floodFill ctx p sc = Some ctx"
  by (subst floodFill.simps) simp

lemma floodFill_other:
  "inCanvas p ctx \<Longrightarrow> pixels ctx p \<noteq> c \<Longrightarrow> floodFill ctx p (Some c) = Some ctx"
  by (subst floodFill.simps) (simp add: getPixelColor_def getImageData_def isEqual_def)

lemma floodFill_match:
  "inCanvas p ctx \<Longrightarrow> pixels ctx p = c \<Longrightarrow>
     floodFill ctx p (Some c) = spread (repaint p ctx) p c"
  by (subst floodFill.simps)
    (simp add: getPixelColor_def getImageData_def isEqual_def paint_erase spread_def)

lemma floodFill_top:
  "inCanvas p ctx \<Longrightarrow> floodFill ctx p None = spread (repaint p ctx) p (pixels ctx p)"
  by (subst floodFill.simps)
    (simp add: getPixelColor_def getImageData_def paint_erase spread_def Let_def)

lemma finite_matching: "finite (matching ctx c)"
proof (rule finite_subset)
  show "matching ctx c \<subseteq> {0..<width ctx} \<times> {0..<height ctx}"
    by (auto simp: matching_def inCanvas_def)
  show "finite ({0..<width ctx} \<times> {0..<height ctx})" by simp
qed

lemma inCanvas_repaint [simp]: "inCanvas q (repaint p ctx) = inCanvas q ctx"
  by (simp add: repaint_def inCanvas_def)

lemma fillStyle_repaint [simp]: "fillStyle (repaint p ctx) = fillStyle ctx"
  by (simp add: repaint_def)

lemma matching_repaint:
  "fillStyle ctx \<noteq> c \<Longrightarrow> matching (repaint p ctx) c = matching ctx c - {p}"
  by (auto simp: matching_def repaint_def inCanvas_def)

lemma paintedWithin_refl: "paintedWithin R ctx ctx"
  by (simp add: paintedWithin_def)

lemma paintedWithin_trans:
  "paintedWithin R a b \<Longrightarrow> paintedWithin R b c \<Longrightarrow> paintedWithin R a c"
  unfolding paintedWithin_def by metis

lemma paintedWithin_mono: "paintedWithin R a b \<Longrightarrow> R \<subseteq> S \<Longrightarrow> paintedWithin S a b"
  unfolding paintedWithin_def by blast

lemma paintedWithin_repaint: "p \<in> R \<Longrightarrow> paintedWithin R ctx (repaint p ctx)"
  by (simp add: paintedWithin_def repaint_def)

lemma matching_paintedWithin:
  assumes "paintedWithin R ctx ctx'" "fillStyle ctx \<noteq> c"
  shows "matching ctx' c \<subseteq> matching ctx c"
proof
  fix q assume q: "q \<in> matching ctx' c"
  note p = assms(1) and f = assms(2)
  have "pixels ctx' q = pixels ctx q"
    using p f q unfolding paintedWithin_def matching_def by (metis (mono_tags, lifting) mem_Collect_eq)
  moreover have "inCanvas q ctx = inCanvas q ctx'"
    using p by (simp add: paintedWithin_def inCanvas_def)
  ultimately show "q \<in> matching ctx c" using q by (simp add: matching_def)
qed

lemma region_subset_matching: "region ctx c p \<subseteq> matching ctx c"
proof
  fix q assume "q \<in> region ctx c p"
  then show "q \<in> matching ctx c" by induction
qed

lemma region_mono:
  assumes "matching ctx' c \<subseteq> matching ctx c"
  shows "region ctx' c p \<subseteq> region ctx c p"
proof
  fix q assume "q \<in> region ctx' c p"
  then show "q \<in> region ctx c p"
    using assms by induction (auto intro: region.intros)
qed

lemma region_neighbour:
  assumes "p \<in> matching ctx c" "p' \<in> set (neighbours p)"
  shows "region ctx c p' \<subseteq> region ctx c p"
proof
  fix q assume "q \<in> region ctx c p'"
  then show "q \<in> region ctx c p"
  proof induction
    case seed
    then show ?case using assms by (blast intro: region.intros)
  next
    case (grow q q')
    then show ?case by (blast intro: region.grow)
  qed
qed

lemma spread_step:
  assumes fg: "fillStyle ctx \<noteq> c" and p: "p \<in> matching ctx c"
    and IH: "\<And>a q. fillStyle a \<noteq> c \<Longrightarrow> card (matching a c) < card (matching ctx c) \<Longrightarrow>
               \<exists>b. floodFill a q (Some c) = Some b \<and> paintedWithin (region a c q) a b"
  shows "\<exists>ctx'. spread (repaint p ctx) p c = Some ctx' \<and> paintedWithin (region ctx c p) ctx ctx'"
proof -
  let ?R = "region ctx c p"
  let ?M0 = "matching ctx c - {p}"
  have less: "card ?M0 < card (matching ctx c)"
    using p finite_matching[of ctx c] by (rule_tac card_Diff1_less)
  have call: "\<exists>b. floodFill a q (Some c) = Some b \<and> paintedWithin ?R ctx b \<and> matching b c \<subseteq> ?M0"
    if a: "paintedWithin ?R ctx a" "matching a c \<subseteq> ?M0" and q: "q \<in> set (neighbours p)" for a q
  proof -
    have fa: "fillStyle a \<noteq> c" using a(1) fg by (simp add: paintedWithin_def)
    have "card (matching a c) \<le> card ?M0"
      using a(2) finite_matching[of ctx c] by (intro card_mono) auto
    with less have "card (matching a c) < card (matching ctx c)" by simp
    from IH[OF fa this, of q] obtain b
      where b: "floodFill a q (Some c) = Some b" "paintedWithin (region a c q) a b" by blast
    have "matching a c \<subseteq> matching ctx c" using a(2) by blast
    then have "region a c q \<subseteq> region ctx c q" by (rule region_mono)
    also have "\<dots> \<subseteq> ?R" using p q by (rule region_neighbour)
    finally have "paintedWithin ?R a b" using b(2) paintedWithin_mono by blast
    with a(1) have "paintedWithin ?R ctx b" by (rule paintedWithin_trans)
    moreover have "matching b c \<subseteq> ?M0"
      using matching_paintedWithin[OF b(2) fa] a(2) by blast
    ultimately show ?thesis using b(1) by blast
  qed
  have n: "(fst p - 1, snd p) \<in> set (neighbours p)" "(fst p + 1, snd p) \<in> set (neighbours p)"
    "(fst p, snd p - 1) \<in> set (neighbours p)" "(fst p, snd p + 1) \<in> set (neighbours p)"
    by (simp_all add: neighbours_def)
  have "p \<in> ?R" using p by (rule region.seed)
  then have s0: "paintedWithin ?R ctx (repaint p ctx)" by (rule paintedWithin_repaint)
  have m0: "matching (repaint p ctx) c \<subseteq> ?M0" using matching_repaint[OF fg] by simp
  from call[OF s0 m0 n(1)] obtain c1
    where c1: "floodFill (repaint p ctx) (fst p - 1, snd p) (Some c) = Some c1"
      "paintedWithin ?R ctx c1" "matching c1 c \<subseteq> ?M0" by blast
  from call[OF c1(2,3) n(2)] obtain c2
    where c2: "floodFill c1 (fst p + 1, snd p) (Some c) = Some c2"
      "paintedWithin ?R ctx c2" "matching c2 c \<subseteq> ?M0" by blast
  from call[OF c2(2,3) n(3)] obtain c3
    where c3: "floodFill c2 (fst p, snd p - 1) (Some c) = Some c3"
      "paintedWithin ?R ctx c3" "matching c3 c \<subseteq> ?M0" by blast
  from call[OF c3(2,3) n(4)] obtain c4
    where c4: "floodFill c3 (fst p, snd p + 1) (Some c) = Some c4"
      "paintedWithin ?R ctx c4" by blast
  have "spread (repaint p ctx) p c = Some c4"
    by (simp add: spread_def c1(1) c2(1) c3(1) c4(1))
  with c4(2) show ?thesis by blast
qed

lemma floodFill_returns:
  "fillStyle ctx \<noteq> c \<Longrightarrow>
     \<exists>ctx'. floodFill ctx q (Some c) = Some ctx' \<and> paintedWithin (region ctx c q) ctx ctx'"
proof (induction "card (matching ctx c)" arbitrary: ctx q rule: less_induct)
  case less
  show ?case
  proof (cases "q \<in> matching ctx c")
    case True
    then have "floodFill ctx q (Some c) = spread (repaint q ctx) q c"
      by (simp add: matching_def floodFill_match)
    moreover have "\<exists>ctx'. spread (repaint q ctx) q c = Some ctx' \<and>
        paintedWithin (region ctx c q) ctx ctx'"
      using less.prems True less.hyps by (rule spread_step)
    ultimately show ?thesis by simp
  next
    case False
    then have "floodFill ctx q (Some c) = Some ctx"
      by (cases "inCanvas q ctx") (simp_all add: matching_def floodFill_outside floodFill_other)
    then show ?thesis by (simp add: paintedWithin_refl)
  qed
qed

lemma floodFill_top_returns:
  assumes "fillStyle ctx \<noteq> getPixelColor seed ctx"
  shows "\<exists>ctx'. floodFill ctx seed None = Some ctx' \<and>
     paintedWithin (region ctx (getPixelColor seed ctx) seed) ctx ctx'"
proof (cases "inCanvas seed ctx")
  case True
  then have c: "getPixelColor seed ctx = pixels ctx seed"
    by (simp add: getPixelColor_def getImageData_def)
  have "seed \<in> matching ctx (pixels ctx seed)" using True by (simp add: matching_def)
  with assms have "\<exists>ctx'. spread (repaint seed ctx) seed (pixels ctx seed) = Some ctx' \<and>
      paintedWithin (region ctx (pixels ctx seed) seed) ctx ctx'"
    unfolding c by (rule spread_step) (rule floodFill_returns)
  then show ?thesis unfolding c floodFill_top[OF True] .
next
  case False
  then show ?thesis by (simp add: floodFill_outside paintedWithin_refl)
qed

text \<open>
  C3. If the fill colour differs from the colour at the seed, \<^verbatim>\<open>floodFill\<close> called
  without a search colour returns. A pixel is visited with a matching colour exactly when
  it is repainted, and as the fill colour is not the seed colour that is when its colour
  changes: the set of pixels whose colour changed lies in the 4-connected region of the
  seed colour around the seed, which is finite, so it has at most as many pixels.
\<close>

theorem floodFill_terminates:
  assumes "fillStyle ctx \<noteq> getPixelColor seed ctx"
  shows "\<exists>ctx'. floodFill ctx seed None = Some ctx' \<and>
     finite (region ctx (getPixelColor seed ctx) seed) \<and>
     {q. getPixelColor q ctx' \<noteq> getPixelColor q ctx} \<subseteq> region ctx (getPixelColor seed ctx) seed \<and>
     card {q. getPixelColor q ctx' \<noteq> getPixelColor q ctx}
       \<le> card (region ctx (getPixelColor seed ctx) seed)"
proof -
  let ?R = "region ctx (getPixelColor seed ctx) seed"
  from floodFill_top_returns[OF assms] obtain ctx'
    where r: "floodFill ctx seed None = Some ctx'" and w: "paintedWithin ?R ctx ctx'" by blast
  have f: "finite ?R"
    using region_subset_matching finite_matching by (rule finite_subset)
  have "inCanvas q ctx' = inCanvas q ctx" for q
    using w by (simp add: paintedWithin_def inCanvas_def)
  then have s: "{q. getPixelColor q ctx' \<noteq> getPixelColor q ctx} \<subseteq> ?R"
    using w by (auto simp: paintedWithin_def getPixelColor_def getImageData_def)
  from r f s card_mono[OF f s] show ?thesis by blast
qed

lemma bordered_fill:
  assumes "X \<noteq> Y" "Z \<noteq> Y"
  shows "\<exists>ctx'. floodFill (bordered X Y Z) (2, 2) None = Some ctx' \<and>
     rows ctx' = [[X, X, X, X, X], [X, Z, Z, Z, X], [X, Z, Z, Z, X], [X, Z, Z, Z, X], [X, X, X, X, X]]"
proof -
  have ne: "Y \<noteq> X" "Y \<noteq> Z" using assms by auto
  show ?thesis
    using assms ne
    by (simp add: floodFill_top floodFill_match floodFill_other floodFill_outside spread_def
        repaint_def bordered_def inCanvas_def rows_def getPixelColor_def getImageData_def upto_rec1)
qed

lemma spread_Some:
  assumes "spread a p c = Some y"
  obtains c1 c2 c3 where "floodFill a (fst p - 1, snd p) (Some c) = Some c1"
    "floodFill c1 (fst p + 1, snd p) (Some c) = Some c2"
    "floodFill c2 (fst p, snd p - 1) (Some c) = Some c3"
    "floodFill c3 (fst p, snd p + 1) (Some c) = Some y"
  using assms unfolding spread_def by (auto simp: bind_eq_Some_conv)

lemma floodFill_unfold:
  "floodFill ctx p sc =
     (if inCanvas p ctx \<and> (sc = None \<or> sc = Some (getPixelColor p ctx))
      then spread (paintPixel p (erasePixel p ctx)) p (getPixelColor p ctx)
      else Some ctx)"
  by (subst floodFill.simps) (auto simp: spread_def isEqual_def Let_def split: option.splits)

lemma floodFill_painted:
  "floodFill ctx p sc = Some y \<Longrightarrow> paintedWithin UNIV ctx y"
proof (induction rule: floodFill.raw_induct[rotated 1, consumes 1])
  case (1 f ctx p sc y)
  show ?case
  proof (cases "inCanvas p ctx \<and> (sc = None \<or> sc = Some (getPixelColor p ctx))")
    case True
    let ?a = "paintPixel p (erasePixel p ctx)"
    let ?c = "getPixelColor p ctx"
    from True 1(2) obtain c1 c2 c3 where
      "f ?a (fst p - 1, snd p) (Some ?c) = Some c1" "f c1 (fst p + 1, snd p) (Some ?c) = Some c2"
      "f c2 (fst p, snd p - 1) (Some ?c) = Some c3" "f c3 (fst p, snd p + 1) (Some ?c) = Some y"
      by (auto simp: bind_eq_Some_conv isEqual_def Let_def split: if_splits option.splits)
    then have "paintedWithin UNIV ?a c1" "paintedWithin UNIV c1 c2" "paintedWithin UNIV c2 c3"
      "paintedWithin UNIV c3 y" by (auto dest: 1(1))
    moreover have "paintedWithin UNIV ctx ?a"
      using True by (simp add: paint_erase paintedWithin_repaint)
    ultimately show ?thesis by (blast intro: paintedWithin_trans)
  next
    case False
    with 1(2) have "y = ctx"
      by (auto simp: isEqual_def Let_def split: if_splits option.splits)
    then show ?thesis by (simp add: paintedWithin_refl)
  qed
qed

lemma spread_painted:
  assumes "spread a p c = Some y"
  shows "paintedWithin UNIV a y"
  using assms by (elim spread_Some) (blast intro: paintedWithin_trans dest: floodFill_painted)

lemma neighbours_sym: "q \<in> set (neighbours p) \<Longrightarrow> p \<in> set (neighbours q)"
  by (cases p; cases q) (auto simp: neighbours_def)

lemma repaint_same: "pixels ctx p = fillStyle ctx \<Longrightarrow> repaint p ctx = ctx"
  by (simp add: repaint_def fun_upd_idem)

lemma floodFill_same_colour:
  "floodFill ctx p sc = Some y \<Longrightarrow> sc = Some (fillStyle ctx) \<Longrightarrow>
     y = ctx \<and> \<not> (p \<in> matching ctx (fillStyle ctx) \<and>
                   (\<exists>p' \<in> set (neighbours p). p' \<in> matching ctx (fillStyle ctx)))"
proof (induction rule: floodFill.raw_induct[rotated 1, consumes 1])
  case (1 f ctx p sc y)
  let ?g = "fillStyle ctx"
  show ?case
  proof (cases "p \<in> matching ctx ?g")
    case True
    then have ic: "inCanvas p ctx" and px: "pixels ctx p = ?g" by (simp_all add: matching_def)
    have col: "getPixelColor p ctx = ?g" using ic px by (simp add: getPixelColor_def getImageData_def)
    have same: "paintPixel p (erasePixel p ctx) = ctx"
      using ic px by (simp add: paint_erase repaint_same)
    from 1(2) obtain c1 c2 c3 where e:
      "f ctx (fst p - 1, snd p) (Some ?g) = Some c1" "f c1 (fst p + 1, snd p) (Some ?g) = Some c2"
      "f c2 (fst p, snd p - 1) (Some ?g) = Some c3" "f c3 (fst p, snd p + 1) (Some ?g) = Some y"
      unfolding 1(3) using ic
      by (auto simp: col same bind_eq_Some_conv isEqual_def Let_def split: if_splits)
    have r1: "c1 = ctx \<and> \<not> ((fst p - 1, snd p) \<in> matching ctx ?g \<and>
        (\<exists>p' \<in> set (neighbours (fst p - 1, snd p)). p' \<in> matching ctx ?g))"
      using 1(1)[OF e(1)] by simp
    then have c1: "c1 = ctx" by simp
    have r2: "c2 = ctx \<and> \<not> ((fst p + 1, snd p) \<in> matching ctx ?g \<and>
        (\<exists>p' \<in> set (neighbours (fst p + 1, snd p)). p' \<in> matching ctx ?g))"
      using 1(1)[OF e(2)[unfolded c1]] by simp
    then have c2: "c2 = ctx" by simp
    have r3: "c3 = ctx \<and> \<not> ((fst p, snd p - 1) \<in> matching ctx ?g \<and>
        (\<exists>p' \<in> set (neighbours (fst p, snd p - 1)). p' \<in> matching ctx ?g))"
      using 1(1)[OF e(3)[unfolded c2]] by simp
    then have c3: "c3 = ctx" by simp
    have r4: "y = ctx \<and> \<not> ((fst p, snd p + 1) \<in> matching ctx ?g \<and>
        (\<exists>p' \<in> set (neighbours (fst p, snd p + 1)). p' \<in> matching ctx ?g))"
      using 1(1)[OF e(4)[unfolded c3]] by simp
    have "\<not> (\<exists>p' \<in> set (neighbours p). p' \<in> matching ctx ?g)"
    proof
      assume "\<exists>p' \<in> set (neighbours p). p' \<in> matching ctx ?g"
      then obtain p' where p': "p' \<in> set (neighbours p)" "p' \<in> matching ctx ?g" by blast
      have bk: "p \<in> set (neighbours p')" using p'(1) by (rule neighbours_sym)
      from p'(1) consider "p' = (fst p - 1, snd p)" | "p' = (fst p + 1, snd p)"
        | "p' = (fst p, snd p - 1)" | "p' = (fst p, snd p + 1)"
        by (auto simp: neighbours_def)
      then show False
        using r1 r2 r3 r4 p'(2) bk True by cases blast+
    qed
    with r4 show ?thesis by simp
  next
    case False
    then have "\<not> inCanvas p ctx \<or> getPixelColor p ctx \<noteq> ?g"
      by (auto simp: matching_def getPixelColor_def getImageData_def)
    with 1(2) have "y = ctx"
      unfolding 1(3) by (auto simp: isEqual_def Let_def split: if_splits)
    with False show ?thesis by simp
  qed
qed

lemma floodFill_never_returns:
  assumes "seed \<in> matching ctx (fillStyle ctx)" "p' \<in> set (neighbours seed)"
    "p' \<in> matching ctx (fillStyle ctx)"
  shows "floodFill ctx seed None = None"
proof (rule ccontr)
  let ?g = "fillStyle ctx"
  assume "floodFill ctx seed None \<noteq> None"
  then obtain y where y: "floodFill ctx seed None = Some y" by auto
  have ic: "inCanvas seed ctx" and px: "pixels ctx seed = ?g"
    using assms(1) by (simp_all add: matching_def)
  from y have "spread ctx seed ?g = Some y"
    by (simp add: floodFill_top[OF ic] px repaint_same)
  then obtain c1 c2 c3 where e:
    "floodFill ctx (fst seed - 1, snd seed) (Some ?g) = Some c1"
    "floodFill c1 (fst seed + 1, snd seed) (Some ?g) = Some c2"
    "floodFill c2 (fst seed, snd seed - 1) (Some ?g) = Some c3"
    "floodFill c3 (fst seed, snd seed + 1) (Some ?g) = Some y"
    by (rule spread_Some)
  note r1 = floodFill_same_colour[OF e(1) refl]
  then have c1: "c1 = ctx" by simp
  note r2 = floodFill_same_colour[OF e(2)[unfolded c1] refl]
  then have c2: "c2 = ctx" by simp
  note r3 = floodFill_same_colour[OF e(3)[unfolded c2] refl]
  then have c3: "c3 = ctx" by simp
  note r4 = floodFill_same_colour[OF e(4)[unfolded c3] refl]
  have bk: "seed \<in> set (neighbours p')" using assms(2) by (rule neighbours_sym)
  from assms(2) consider "p' = (fst seed - 1, snd seed)" | "p' = (fst seed + 1, snd seed)"
    | "p' = (fst seed, snd seed - 1)" | "p' = (fst seed, snd seed + 1)"
    by (auto simp: neighbours_def)
  then show False
    using r1 r2 r3 r4 assms(1,3) bk by cases blast+
qed

text \<open>
  C1, at a failing input. On a 2 by 1 canvas of opaque black with opaque black as the
  foreground colour, the seeded region is already entirely the foreground colour, and the
  tool never returns: once the seed's neighbour is repainted, the seed matches the search
  colour again.
\<close>

theorem Bucket_same_colour_never_returns:
  "Bucket css0 st0 [(0, 0)] black2 = None"
proof -
  define c where "c = \<lparr>width = 2, height = 1, fillStyle = (0, 0, 0, 255) :: rgba,
    pixels = (\<lambda>q :: Point. (0, 0, 0, 255) :: rgba)\<rparr>"
  have s: "setFillStyle css0 (fgColor st0) black2 = c"
    by (simp add: setFillStyle_def css0_def st0_def black2_def c_def)
  have "(0, 0) \<in> matching c (fillStyle c)" "(1, 0) \<in> set (neighbours (0, 0))"
    "(1, 0) \<in> matching c (fillStyle c)"
    by (simp_all add: matching_def inCanvas_def neighbours_def c_def)
  then have "floodFill c (0, 0) None = None" by (rule floodFill_never_returns)
  then show ?thesis by (simp add: Bucket_def s)
qed

theorem floodFill_terminates_witness:
  "fillStyle (bordered (0, 0, 0, 255) (255, 255, 255, 255) (255, 0, 0, 255))
     \<noteq> getPixelColor (2, 2) (bordered (0, 0, 0, 255) (255, 255, 255, 255) (255, 0, 0, 255)) \<and>
   (\<exists>ctx'. floodFill (bordered (0, 0, 0, 255) (255, 255, 255, 255) (255, 0, 0, 255)) (2, 2) None
        = Some ctx' \<and>
      card {q. getPixelColor q ctx'
               \<noteq> getPixelColor q (bordered (0, 0, 0, 255) (255, 255, 255, 255) (255, 0, 0, 255))}
        \<le> card (region (bordered (0, 0, 0, 255) (255, 255, 255, 255) (255, 0, 0, 255))
                  (255, 255, 255, 255) (2, 2)))"
proof -
  let ?b = "bordered (0, 0, 0, 255) (255, 255, 255, 255) (255, 0, 0, 255)"
  have c: "getPixelColor (2, 2) ?b = (255, 255, 255, 255)"
    by (simp add: getPixelColor_def getImageData_def inCanvas_def bordered_def)
  have h: "fillStyle ?b \<noteq> getPixelColor (2, 2) ?b"
    unfolding c by (simp add: bordered_def)
  show ?thesis
    using floodFill_terminates[OF h] h unfolding c by blast
qed

text \<open>
  C4. On a non-empty point sequence the tool calls \<^verbatim>\<open>floodFill\<close> at the last point with
  no search colour. If that point is on the canvas, the call paints it with the foreground
  colour before anything else, whatever colour it had, and makes its four recursive calls
  with the colour read there before painting; in the canvas the tool returns, the pixel
  holds the foreground colour. A call with search colour \<open>c\<close> either returns the canvas as
  it is or paints and makes its four recursive calls with the same \<open>c\<close>: the colour
  compared against is the seed's original colour at every depth.
\<close>

theorem Bucket_seed_repainted:
  assumes "points \<noteq> []" "css (fgColor st) = Some fg"
  shows "Bucket css st points canvas =
       map_option Inr (floodFill (canvas\<lparr>fillStyle := fg\<rparr>) (last points) None) \<and>
     (inCanvas (last points) canvas \<longrightarrow>
        floodFill (canvas\<lparr>fillStyle := fg\<rparr>) (last points) None =
          spread (paintPixel (last points) (erasePixel (last points) (canvas\<lparr>fillStyle := fg\<rparr>)))
            (last points) (getPixelColor (last points) canvas) \<and>
        getPixelColor (last points)
          (paintPixel (last points) (erasePixel (last points) (canvas\<lparr>fillStyle := fg\<rparr>))) = fg \<and>
        (\<forall>ctx'. Bucket css st points canvas = Some (Inr ctx') \<longrightarrow>
           getPixelColor (last points) ctx' = fg)) \<and>
     (\<forall>ctx p c. floodFill ctx p (Some c) =
        (if inCanvas p ctx \<and> getPixelColor p ctx = c
         then spread (paintPixel p (erasePixel p ctx)) p c else Some ctx))"
proof -
  let ?c = "canvas\<lparr>fillStyle := fg\<rparr>"
  let ?s = "last points"
  have l: "points ! (length points - 1) = ?s" using assms(1) by (simp add: last_conv_nth)
  have B: "Bucket css st points canvas = map_option Inr (floodFill ?c ?s None)"
    using assms by (simp add: Bucket_def Let_def setFillStyle_Some l del: One_nat_def)
  have col: "getPixelColor q ?c = getPixelColor q canvas" for q
    by (simp add: getPixelColor_def getImageData_def)
  have top: "floodFill ?c ?s None = spread (paintPixel ?s (erasePixel ?s ?c)) ?s (getPixelColor ?s canvas)"
    and painted: "getPixelColor ?s (paintPixel ?s (erasePixel ?s ?c)) = fg"
    and final: "\<forall>ctx'. Bucket css st points canvas = Some (Inr ctx') \<longrightarrow> getPixelColor ?s ctx' = fg"
    if ic: "inCanvas ?s canvas"
  proof -
    have ic': "inCanvas ?s ?c" using ic by simp
    show top: "floodFill ?c ?s None = spread (paintPixel ?s (erasePixel ?s ?c)) ?s (getPixelColor ?s canvas)"
      using ic' by (simp add: floodFill_unfold col)
    show p: "getPixelColor ?s (paintPixel ?s (erasePixel ?s ?c)) = fg"
      using ic' by (simp add: paint_erase getPixelColor_def getImageData_def) (simp add: repaint_def)
    show "\<forall>ctx'. Bucket css st points canvas = Some (Inr ctx') \<longrightarrow> getPixelColor ?s ctx' = fg"
    proof (intro allI impI)
      fix ctx' assume "Bucket css st points canvas = Some (Inr ctx')"
      then have "spread (paintPixel ?s (erasePixel ?s ?c)) ?s (getPixelColor ?s canvas) = Some ctx'"
        unfolding B top by auto
      then have w: "paintedWithin UNIV (repaint ?s ?c) ctx'"
        unfolding paint_erase[OF ic'] by (rule spread_painted)
      then have "inCanvas ?s ctx'" using ic by (simp add: paintedWithin_def inCanvas_def repaint_def)
      moreover have "pixels ctx' ?s = fg"
      proof -
        have "pixels ctx' ?s \<noteq> pixels (repaint ?s ?c) ?s \<longrightarrow>
            pixels ctx' ?s = fillStyle (repaint ?s ?c)"
          using w unfolding paintedWithin_def by blast
        moreover have "pixels (repaint ?s ?c) ?s = fg" "fillStyle (repaint ?s ?c) = fg"
          by (simp_all add: repaint_def)
        ultimately show ?thesis by auto
      qed
      ultimately show "getPixelColor ?s ctx' = fg"
        by (simp add: getPixelColor_def getImageData_def)
    qed
  qed
  have rec: "\<forall>ctx p c. floodFill ctx p (Some c) =
        (if inCanvas p ctx \<and> getPixelColor p ctx = c
         then spread (paintPixel p (erasePixel p ctx)) p c else Some ctx)"
    by (subst floodFill_unfold) auto
  from B top painted final rec show ?thesis by blast
qed

theorem Bucket_seed_repainted_witness:
  "[(0, 0), (1, 1)] \<noteq> ([] :: Point list) \<and> css0 (fgColor st0) = Some (0, 0, 0, 255) \<and>
   inCanvas (last [(0, 0), (1, 1)]) cv0 \<and>
   (\<exists>ctx'. Bucket css0 st0 [(0, 0), (1, 1)] cv0 = Some (Inr ctx') \<and>
      getPixelColor (1, 1) cv0 = (255, 0, 16, 255) \<and> getPixelColor (1, 1) ctx' = (0, 0, 0, 255))"
proof -
  have h: "[(0, 0), (1, 1)] \<noteq> ([] :: Point list)" "css0 (fgColor st0) = Some (0, 0, 0, 255)"
    by (simp_all add: css0_def st0_def)
  have ic: "inCanvas (last [(0, 0), (1, 1)]) cv0" by (simp add: inCanvas_def cv0_def)
  have r: "\<exists>ctx'. floodFill (cv0\<lparr>fillStyle := (0, 0, 0, 255)\<rparr>) (1, 1) None = Some ctx'"
    by (simp add: floodFill_top floodFill_match floodFill_other floodFill_outside spread_def
        repaint_def cv0_def inCanvas_def transparent_def)
  have c: "getPixelColor (1, 1) cv0 = (255, 0, 16, 255)"
    by (simp add: getPixelColor_def getImageData_def inCanvas_def cv0_def)
  show ?thesis
    using Bucket_seed_repainted[where points = "[(0, 0), (1, 1)]" and css = css0 and st = st0
        and fg = "(0, 0, 0, 255)" and canvas = cv0, OF h] h ic r c
    by auto
qed

text \<open>
  C5. On the 5 by 5 canvas with border colour \<open>X\<close> and interior colour \<open>Y\<close> (different
  colours), filling from the centre with a colour \<open>Z\<close> other than \<open>Y\<close> returns the canvas
  whose nine interior pixels hold \<open>Z\<close> and whose border is as before. A call on a point
  outside the canvas returns the canvas as it is.
\<close>

theorem floodFill_bordered:
  "(X \<noteq> Y \<and> Z \<noteq> Y \<longrightarrow>
      rows (bordered X Y Z) =
        [[X, X, X, X, X], [X, Y, Y, Y, X], [X, Y, Y, Y, X], [X, Y, Y, Y, X], [X, X, X, X, X]] \<and>
      (\<exists>ctx'. floodFill (bordered X Y Z) (2, 2) None = Some ctx' \<and>
         rows ctx' =
           [[X, X, X, X, X], [X, Z, Z, Z, X], [X, Z, Z, Z, X], [X, Z, Z, Z, X], [X, X, X, X, X]])) \<and>
   (\<not> inCanvas p ctx \<longrightarrow> floodFill ctx p sc = Some ctx)"
proof -
  have "rows (bordered X Y Z) =
        [[X, X, X, X, X], [X, Y, Y, Y, X], [X, Y, Y, Y, X], [X, Y, Y, Y, X], [X, X, X, X, X]]"
    by (simp add: rows_def bordered_def getPixelColor_def getImageData_def inCanvas_def upto_rec1)
  then show ?thesis
    using bordered_fill[of X Y Z] floodFill_outside[of p ctx sc] by blast
qed

theorem floodFill_bordered_witness:
  "(0, 0, 0, 255) \<noteq> ((255, 255, 255, 255) :: rgba) \<and> (255, 0, 0, 255) \<noteq> ((255, 255, 255, 255) :: rgba) \<and>
   (\<exists>ctx'. floodFill (bordered (0, 0, 0, 255) (255, 255, 255, 255) (255, 0, 0, 255)) (2, 2) None
        = Some ctx' \<and> getPixelColor (1, 3) ctx' = (255, 0, 0, 255) \<and>
          getPixelColor (0, 3) ctx' = (0, 0, 0, 255)) \<and>
   \<not> inCanvas (- 1, 2) cv0 \<and> floodFill cv0 (- 1, 2) (Some transparent) = Some cv0"
proof -
  have h: "(0, 0, 0, 255) \<noteq> ((255, 255, 255, 255) :: rgba) \<and> (255, 0, 0, 255) \<noteq> ((255, 255, 255, 255) :: rgba)"
    by simp
  have o: "\<not> inCanvas (- 1, 2) cv0" by (simp add: inCanvas_def)
  from floodFill_bordered[of "(0, 0, 0, 255)" "(255, 255, 255, 255)" "(255, 0, 0, 255)" "(- 1, 2)" cv0
      "Some transparent"] h o
  obtain ctx' where r: "floodFill (bordered (0, 0, 0, 255) (255, 255, 255, 255) (255, 0, 0, 255)) (2, 2) None
        = Some ctx'"
    and w: "rows ctx' = [[(0, 0, 0, 255), (0, 0, 0, 255), (0, 0, 0, 255), (0, 0, 0, 255), (0, 0, 0, 255)],
       [(0, 0, 0, 255), (255, 0, 0, 255), (255, 0, 0, 255), (255, 0, 0, 255), (0, 0, 0, 255)],
       [(0, 0, 0, 255), (255, 0, 0, 255), (255, 0, 0, 255), (255, 0, 0, 255), (0, 0, 0, 255)],
       [(0, 0, 0, 255), (255, 0, 0, 255), (255, 0, 0, 255), (255, 0, 0, 255), (0, 0, 0, 255)],
       [(0, 0, 0, 255), (0, 0, 0, 255), (0, 0, 0, 255), (0, 0, 0, 255), (0, 0, 0, 255)]]"
    and f: "floodFill cv0 (- 1, 2) (Some transparent) = Some cv0"
    by blast
  have d: "width ctx' = 5" "height ctx' = 5"
    using floodFill_painted[OF r] by (simp_all add: paintedWithin_def bordered_def)
  have "getPixelColor (1, 3) ctx' = (255, 0, 0, 255) \<and> getPixelColor (0, 3) ctx' = (0, 0, 0, 255)"
    using w by (simp add: rows_def d upto_rec1)
  with h o r f show ?thesis by blast
qed

end
